theory Spec2Isabelle
  imports Main "HOL-Library.Sublist" "HOL-Library.Multiset" "HOL-Library.AList"
begin

section \<open>Strings as the scraper uses them\<close>

text \<open>
  A Python \<open>str\<close> is modelled as a \<open>string\<close> whose characters are code points
  below 256. \<open>is_space\<close> is the whitespace class shared by the regular expression
  escape \<open>\s\<close> on \<open>str\<close> patterns and by \<open>str.strip()\<close> without arguments,
  restricted to those code points: TAB, LF, VT, FF, CR, the separators
  0x1C to 0x1F, the blank, NEL (0x85) and the no-break space (0xA0).
\<close>

definition is_space :: "char \<Rightarrow> bool" where
  "is_space c = (c \<in> set [CHR 0x09, CHR 0x0A, CHR 0x0B, CHR 0x0C, CHR 0x0D,
                          CHR 0x1C, CHR 0x1D, CHR 0x1E, CHR 0x1F, CHR 0x20,
                          CHR 0x85, CHR 0xA0])"

text \<open>The character class \<open>[<>:"/\\|?*]\<close> of \<open>_sanitize_filename\<close>.\<close>

definition hostile_chars :: "char list" where
  "hostile_chars = [CHR ''<'', CHR ''>'', CHR '':'', CHR 0x22, CHR ''/'', CHR 0x5C,
                    CHR ''|'', CHR ''?'', CHR ''*'']"

text \<open>
  \<open>re.sub(r'[...]', repl, s)\<close> for a pattern that is one character class: every
  character of the class is a match of its own and is replaced.
\<close>

fun re_sub_class :: "(char \<Rightarrow> bool) \<Rightarrow> string \<Rightarrow> string \<Rightarrow> string" where
  "re_sub_class P repl [] = []"
| "re_sub_class P repl (c # cs) =
     (if P c then repl @ re_sub_class P repl cs else c # re_sub_class P repl cs)"

text \<open>
  \<open>re.sub(r'\s+', repl, s)\<close>: the pattern is greedy, so a match starting at a
  whitespace character takes the whole run that follows, and the search resumes
  after the run.
\<close>

function re_sub_class_plus :: "(char \<Rightarrow> bool) \<Rightarrow> string \<Rightarrow> string \<Rightarrow> string" where
  "re_sub_class_plus P repl [] = []"
| "re_sub_class_plus P repl (c # cs) =
     (if P c then repl @ re_sub_class_plus P repl (dropWhile P cs)
      else c # re_sub_class_plus P repl cs)"
  by pat_completeness auto
termination
  by (relation "measure (\<lambda>(P, repl, s). length s)")
     (auto simp: le_imp_less_Suc length_dropWhile_le)

text \<open>\<open>s.strip(chars)\<close>: drop the characters of \<open>chars\<close> from both ends.\<close>

definition strip_chars :: "(char \<Rightarrow> bool) \<Rightarrow> string \<Rightarrow> string" where
  "strip_chars P s = rev (dropWhile P (rev (dropWhile P s)))"

text \<open>\<open>_sanitize_filename\<close>, statement by statement.\<close>

definition sanitize_filename :: "string \<Rightarrow> string" where
  "sanitize_filename title =
     (let sanitized = re_sub_class (\<lambda>c. c \<in> set hostile_chars) ''_'' title;
          sanitized = re_sub_class_plus is_space ''_'' sanitized;
          sanitized = strip_chars (\<lambda>c. c \<in> set ''._'') sanitized
      in if length sanitized > 100 then take 100 sanitized else sanitized)"

text \<open>
  \<open>s.replace(old, new)\<close>: the occurrences of \<open>old\<close> are found from the left and
  do not overlap; every one of them is replaced. (For an empty \<open>old\<close> Python puts
  \<open>new\<close> before every character and at the end.)
\<close>

function str_replace :: "string \<Rightarrow> string \<Rightarrow> string \<Rightarrow> string" where
  "str_replace old new [] = (if old = [] then new else [])"
| "str_replace old new (c # cs) =
     (if old = [] then new @ c # str_replace old new cs
      else if prefix old (c # cs)
      then new @ str_replace old new (drop (length old) (c # cs))
      else c # str_replace old new cs)"
  by pat_completeness auto
termination
  by (relation "measure (\<lambda>(old, new, s). length s)") auto

abbreviation (input) LF :: char where
  "LF \<equiv> CHR 0x0A"

text \<open>
  \<open>re.sub(r'\n\s*\n\s*\n', '\n\n', s)\<close> of \<open>_extract_content\<close>. A match can only
  start at a line feed. Both \<open>\s*\<close> are greedy and stay inside the whitespace
  that follows this line feed, so there is a match exactly when that whitespace
  holds two more line feeds, and the match then ends at the last line feed of the
  whitespace. The search resumes right after the match.
\<close>

function re_sub_blank_lines :: "string \<Rightarrow> string" where
  "re_sub_blank_lines [] = []"
| "re_sub_blank_lines (c # cs) =
     (let ws = takeWhile is_space cs;
          through_last = rev (dropWhile (\<lambda>x. x \<noteq> LF) (rev ws))
      in if c = LF \<and> 2 \<le> count_list ws LF
         then LF # LF # re_sub_blank_lines (drop (length through_last) cs)
         else c # re_sub_blank_lines cs)"
  by pat_completeness auto
termination
  by (relation "measure length") auto

section \<open>Errors, configuration and the capabilities the scraper calls\<close>

text \<open>
  \<open>ScraperError\<close> is the scraper's own exception; \<open>OtherException\<close> stands for any
  other subclass of \<open>Exception\<close> raised by a library. \<open>message\<close> is \<open>str(e)\<close>.
\<close>

datatype error = ScraperError string | OtherException string

fun message :: "error \<Rightarrow> string" where
  "message (ScraperError m) = m"
| "message (OtherException m) = m"

record config =
  base_url :: string
  query_param :: string
  max_concurrent :: int

text \<open>An element matched by \<open>soup.select('a.toc__link')\<close>: \<open>link.get('href')\<close>
  (absent is \<open>None\<close>) and \<open>link.get_text(strip=True)\<close>.\<close>

record anchor =
  href :: "string option"
  text_of :: string

text \<open>
  What the scraper takes from outside: \<open>urljoin\<close> of \<open>urllib.parse\<close>;
  \<open>fetch_page\<close>, the outcome of \<open>_fetch_page\<close> for a URL during this run;
  \<open>toc_anchors\<close>, parsing a page and selecting its table-of-contents anchors;
  \<open>convert\<close>, lines 165 to 186 of \<open>_extract_content\<close> (parse, locate the content
  element or raise, drop unwanted elements, \<open>markdownify\<close>); \<open>sha256_hex\<close>, the
  hexadecimal SHA-256 digest of the UTF-8 bytes; \<open>now\<close>, the text of
  \<open>datetime.now().isoformat()\<close> at the moment the chapter with this URL is
  recorded.
\<close>

record env =
  urljoin :: "string \<Rightarrow> string \<Rightarrow> string"
  fetch_page :: "string \<Rightarrow> error + string"
  toc_anchors :: "string \<Rightarrow> anchor list"
  convert :: "string \<Rightarrow> error + string"
  sha256_hex :: "string \<Rightarrow> string"
  now :: "string \<Rightarrow> string"

section \<open>Link discovery\<close>

text \<open>Line 141: the title with the "Open " prefix cleaned up.\<close>

definition clean_title :: "string \<Rightarrow> string" where
  "clean_title text = (if prefix ''Open '' text then str_replace ''Open '' [] text else text)"

text \<open>Lines 144 to 149: relative URLs made absolute.\<close>

definition resolve_href :: "env \<Rightarrow> config \<Rightarrow> string \<Rightarrow> string" where
  "resolve_href e cfg h =
     (if prefix ''/'' h then urljoin e (base_url cfg) h
      else if prefix ''http'' h then h
      else urljoin e (base_url cfg @ query_param cfg) h)"

definition manual_marker :: string where
  "manual_marker = ''/the-omarchy-manual/''"

text \<open>The loop of lines 135 to 155; \<open>chapter_links\<close> is the list built so far.\<close>

fun collect_links :: "env \<Rightarrow> config \<Rightarrow> anchor list \<Rightarrow> (string \<times> string) list
    \<Rightarrow> (string \<times> string) list" where
  "collect_links e cfg [] chapter_links = chapter_links"
| "collect_links e cfg (link # links) chapter_links =
     (case href link of
        None \<Rightarrow> collect_links e cfg links chapter_links
      | Some h \<Rightarrow>
          if h \<noteq> [] \<and> text_of link \<noteq> [] then
            (let title = clean_title (text_of link);
                 full_href = resolve_href e cfg h
             in if full_href \<notin> set (map snd chapter_links)
                   \<and> sublist manual_marker full_href
                   \<and> title \<notin> set [[], ''Open'']
                then collect_links e cfg links (chapter_links @ [(title, full_href)])
                else collect_links e cfg links chapter_links)
          else collect_links e cfg links chapter_links)"

definition extract_chapter_links :: "env \<Rightarrow> config \<Rightarrow> error + (string \<times> string) list" where
  "extract_chapter_links e cfg =
     (case fetch_page e (base_url cfg @ query_param cfg) of
        Inl (ScraperError m) \<Rightarrow> Inl (ScraperError (''Failed to fetch base page: '' @ m))
      | Inl other \<Rightarrow> Inl other
      | Inr content \<Rightarrow>
          (let chapter_links = collect_links e cfg (toc_anchors e content) []
           in if chapter_links = []
              then Inl (ScraperError
                ''No chapter links found. The website structure may have changed.'')
              else Inr chapter_links))"

section \<open>Content extraction and hashing\<close>

text \<open>\<open>_extract_content\<close>: the conversion, then lines 189 and 190.\<close>

definition extract_content :: "env \<Rightarrow> string \<Rightarrow> error + string" where
  "extract_content e html =
     (case convert e html of
        Inl err \<Rightarrow> Inl err
      | Inr markdown_content \<Rightarrow>
          Inr (strip_chars is_space (re_sub_blank_lines markdown_content)))"

definition calculate_hash :: "env \<Rightarrow> string \<Rightarrow> string" where
  "calculate_hash e content = sha256_hex e content"

section \<open>The metadata ledger and one chapter\<close>

text \<open>
  \<open>self.metadata\<close>: a dictionary from URL to a dictionary from field name to
  text, as \<open>json.load\<close> returns what an earlier run saved.
\<close>

type_synonym entry = "string \<rightharpoonup> string"
type_synonym ledger = "string \<rightharpoonup> entry"

text \<open>Line 207: \<open>self.metadata.get(url, {}).get('hash', '')\<close>.\<close>

definition old_hash :: "ledger \<Rightarrow> string \<Rightarrow> string" where
  "old_hash metadata url =
     (case (case metadata url of None \<Rightarrow> Map.empty | Some en \<Rightarrow> en) ''hash'' of
        None \<Rightarrow> []
      | Some h \<Rightarrow> h)"

text \<open>
  Lines 207 to 217 of \<open>_process_chapter\<close>: compare with the stored hash, then
  overwrite the entry. Returns the ledger after the assignment, and \<open>changed\<close>.
\<close>

definition record_and_compare ::
    "ledger \<Rightarrow> string \<Rightarrow> string \<Rightarrow> string \<Rightarrow> string \<Rightarrow> string \<Rightarrow> ledger \<times> bool" where
  "record_and_compare metadata url title filename content_hash timestamp =
     (let changed = (content_hash \<noteq> old_hash metadata url)
      in (metadata(url \<mapsto>
            [''title'' \<mapsto> title, ''filename'' \<mapsto> filename, ''hash'' \<mapsto> content_hash,
             ''last_updated'' \<mapsto> timestamp, ''url'' \<mapsto> url]),
          changed))"

text \<open>Line 222: every exception of the body leaves as a \<open>ScraperError\<close>.\<close>

definition processing_error :: "string \<Rightarrow> error \<Rightarrow> error" where
  "processing_error title err =
     ScraperError (''Error processing chapter '' @ [CHR 0x27] @ title @ [CHR 0x27]
                   @ '': '' @ message err)"

text \<open>
  \<open>_process_chapter\<close> between acquiring and releasing the semaphore. The result
  is the returned triple \<open>(filename, content, changed)\<close> or the exception raised,
  together with the ledger afterwards.
\<close>

definition process_chapter ::
    "env \<Rightarrow> string \<Rightarrow> string \<Rightarrow> ledger \<Rightarrow> (error + string \<times> string \<times> bool) \<times> ledger" where
  "process_chapter e title url metadata =
     (case fetch_page e url of
        Inl err \<Rightarrow> (Inl (processing_error title err), metadata)
      | Inr html_content \<Rightarrow>
          (case extract_content e html_content of
             Inl err \<Rightarrow> (Inl (processing_error title err), metadata)
           | Inr markdown_content \<Rightarrow>
               (let content_hash = calculate_hash e markdown_content;
                    filename = sanitize_filename title @ ''.md'';
                    (metadata', changed) =
                       record_and_compare metadata url title filename content_hash (now e url)
                in (Inr (filename, markdown_content, changed), metadata'))))"

section \<open>The run\<close>

datatype console_line = Warning string | Would_save string

record run_state =
  metadata :: ledger
  results_dict :: "(nat \<times> string \<times> string) list"
  changed_chapters :: "string list"
  chapter_files :: "string \<rightharpoonup> string"
  console :: "console_line list"

text \<open>Lines 261 to 264: the first index whose title gives this filename.\<close>

fun first_index :: "('a \<Rightarrow> bool) \<Rightarrow> 'a list \<Rightarrow> nat option" where
  "first_index P [] = None"
| "first_index P (x # xs) = (if P x then Some 0 else map_option Suc (first_index P xs))"

text \<open>
  The body of the \<open>as_completed\<close> loop (lines 257 to 282) for a successful
  chapter. \<open>results_dict\<close> is a Python dictionary: assigning to a key that is
  present keeps its place, a new key goes to the end.
\<close>

definition store_result ::
    "bool \<Rightarrow> (string \<times> string) list \<Rightarrow> string \<times> string \<times> bool \<Rightarrow> run_state \<Rightarrow> run_state" where
  "store_result dry_run chapter_links res st =
     (case res of (filename, content, changed) \<Rightarrow>
        st\<lparr>results_dict :=
             (case first_index (\<lambda>(title, url). sanitize_filename title @ ''.md'' = filename)
                     chapter_links of
                None \<Rightarrow> results_dict st
              | Some i \<Rightarrow> AList.update i (filename, content) (results_dict st)),
           changed_chapters :=
             (if changed then changed_chapters st @ [filename] else changed_chapters st),
           chapter_files :=
             (if dry_run then chapter_files st else (chapter_files st)(filename \<mapsto> content)),
           console :=
             (if dry_run then console st @ [Would_save filename] else console st)\<rparr>)"

text \<open>
  One turn of the \<open>as_completed\<close> loop (lines 256 to 282) for the task of
  chapter \<open>ch\<close>. A task runs from the end of its fetch to its return without
  yielding, so the ledger sees the tasks one after the other, in the order in
  which they complete. Only a \<open>ScraperError\<close> is caught by line 279; anything
  else leaves the loop.
\<close>

definition loop_body ::
    "env \<Rightarrow> bool \<Rightarrow> (string \<times> string) list \<Rightarrow> string \<times> string \<Rightarrow> run_state
     \<Rightarrow> error + run_state" where
  "loop_body e dry_run chapter_links ch st =
     (case process_chapter e (fst ch) (snd ch) (metadata st) of
        (Inl (ScraperError m), metadata') \<Rightarrow>
          Inr (st\<lparr>metadata := metadata', console := console st @ [Warning m]\<rparr>)
      | (Inl other, metadata') \<Rightarrow> Inl other
      | (Inr res, metadata') \<Rightarrow>
          Inr (store_result dry_run chapter_links res (st\<lparr>metadata := metadata'\<rparr>)))"

text \<open>The loop; \<open>completed\<close> lists the chapters in the order of completion.\<close>

fun as_completed_loop ::
    "env \<Rightarrow> bool \<Rightarrow> (string \<times> string) list \<Rightarrow> (string \<times> string) list \<Rightarrow> run_state
     \<Rightarrow> error + run_state" where
  "as_completed_loop e dry_run chapter_links [] st = Inr st"
| "as_completed_loop e dry_run chapter_links (ch # rest) st =
     (case loop_body e dry_run chapter_links ch st of
        Inl err \<Rightarrow> Inl err
      | Inr st' \<Rightarrow> as_completed_loop e dry_run chapter_links rest st')"

text \<open>Line 285: \<open>[results_dict[i] for i in sorted(results_dict.keys())]\<close>.\<close>

definition sorted_results :: "(nat \<times> string \<times> string) list \<Rightarrow> (string \<times> string) list" where
  "sorted_results d = map (\<lambda>i. the (map_of d i)) (sort (map fst d))"

record run_report =
  ordered_results :: "(string \<times> string) list"
  changed_files :: "string list"
  written_files :: "string \<rightharpoonup> string"
  saved_metadata :: "ledger option"
  printed :: "console_line list"

text \<open>\<open>_save_metadata\<close> on a metadata file that can be written, and
  \<open>_load_metadata\<close> (\<open>None\<close>: there is no file).\<close>

definition save_metadata :: "bool \<Rightarrow> ledger \<Rightarrow> ledger option \<Rightarrow> ledger option" where
  "save_metadata dry_run m on_disk = (if dry_run then on_disk else Some m)"

definition load_metadata :: "ledger option \<Rightarrow> ledger" where
  "load_metadata on_disk = (case on_disk of None \<Rightarrow> Map.empty | Some m \<Rightarrow> m)"

text \<open>
  \<open>run\<close> from line 242 on, for the chapter links that discovery returned:
  the scraper was constructed on the metadata file \<open>on_disk\<close>, the tasks complete
  in the order \<open>completed\<close>.
\<close>

definition run_chapters ::
    "env \<Rightarrow> bool \<Rightarrow> ledger option \<Rightarrow> (string \<times> string) list \<Rightarrow> (string \<times> string) list
     \<Rightarrow> error + run_report" where
  "run_chapters e dry_run on_disk chapter_links completed =
     (case as_completed_loop e dry_run chapter_links completed
             \<lparr>metadata = load_metadata on_disk, results_dict = [], changed_chapters = [],
              chapter_files = Map.empty, console = []\<rparr> of
        Inl err \<Rightarrow> Inl err
      | Inr st \<Rightarrow>
          Inr \<lparr>ordered_results = sorted_results (results_dict st),
               changed_files = changed_chapters st,
               written_files = chapter_files st,
               saved_metadata = save_metadata dry_run (metadata st) on_disk,
               printed = console st\<rparr>)"

text \<open>\<open>run\<close>: discovery is fatal when it fails, then the chapters.\<close>

definition run ::
    "env \<Rightarrow> config \<Rightarrow> bool \<Rightarrow> ledger option \<Rightarrow> (string \<times> string) list \<Rightarrow> error + run_report" where
  "run e cfg dry_run on_disk completed =
     (case extract_chapter_links e cfg of
        Inl err \<Rightarrow> Inl err
      | Inr chapter_links \<Rightarrow> run_chapters e dry_run on_disk chapter_links completed)"

section \<open>The admission gate\<close>

text \<open>
  Lines 245 to 249 and 197: one \<open>asyncio.Semaphore\<close> is shared by all chapter
  tasks, and the whole body of \<open>_process_chapter\<close> sits inside
  \<open>async with semaphore\<close>. A task is \<open>Queued\<close> until it acquires the semaphore,
  \<open>Running\<close> while it holds it (fetching, then converting and recording), and
  \<open>Finished\<close> once it left the block, by \<open>return\<close> or by an exception: both
  release. \<open>sem_value\<close> is the semaphore's counter; acquiring needs it positive.
\<close>

datatype phase = Queued | Running | Finished

record gate =
  sem_value :: nat
  phases :: "phase list"

datatype event = Acquire nat | Release nat

text \<open>\<open>asyncio.Semaphore(value)\<close> raises \<open>ValueError\<close> for a negative value.\<close>

definition start_tasks :: "int \<Rightarrow> nat \<Rightarrow> error + gate" where
  "start_tasks limit n =
     (if limit < 0 then Inl (OtherException ''Semaphore initial value must be >= 0'')
      else Inr \<lparr>sem_value = nat limit, phases = replicate n Queued\<rparr>)"

fun gate_step :: "event \<Rightarrow> gate \<Rightarrow> gate option" where
  "gate_step (Acquire i) g =
     (if i < length (phases g) \<and> phases g ! i = Queued \<and> 0 < sem_value g
      then Some (g\<lparr>sem_value := sem_value g - 1, phases := (phases g)[i := Running]\<rparr>)
      else None)"
| "gate_step (Release i) g =
     (if i < length (phases g) \<and> phases g ! i = Running
      then Some (g\<lparr>sem_value := sem_value g + 1, phases := (phases g)[i := Finished]\<rparr>)
      else None)"

fun gate_run :: "event list \<Rightarrow> gate \<Rightarrow> gate option" where
  "gate_run [] g = Some g"
| "gate_run (ev # evs) g =
     (case gate_step ev g of None \<Rightarrow> None | Some g' \<Rightarrow> gate_run evs g')"

definition running :: "gate \<Rightarrow> nat" where
  "running g = length (filter (\<lambda>p. p = Running) (phases g))"

text \<open>The events that can happen next in a state.\<close>

definition enabled :: "gate \<Rightarrow> event list" where
  "enabled g =
     [Acquire i. i \<leftarrow> [0..<length (phases g)], gate_step (Acquire i) g \<noteq> None] @
     [Release i. i \<leftarrow> [0..<length (phases g)], gate_step (Release i) g \<noteq> None]"

text \<open>
  What is left to do in a state: a queued task has two events before it
  (acquire, release), a running task one.
\<close>

definition remaining :: "gate \<Rightarrow> nat" where
  "remaining g =
     2 * length (filter (\<lambda>p. p = Queued) (phases g)) + length (filter (\<lambda>p. p = Running) (phases g))"

section \<open>Notions of the specification\<close>






text \<open>
  Two texts differ only in the lengths of their runs of blank lines when they
  agree once every run of blank lines, that is every run of three or more line
  feeds, is brought down to one blank line.
\<close>

fun squeeze_blank_lines :: "string \<Rightarrow> string" where
  "squeeze_blank_lines (a # b # c # s) =
     (if a = LF \<and> b = LF \<and> c = LF then squeeze_blank_lines (b # c # s)
      else a # squeeze_blank_lines (b # c # s))"
| "squeeze_blank_lines s = s"

text \<open>The outcome of fetching and extracting one chapter page.\<close>

definition chapter_content :: "env \<Rightarrow> string \<Rightarrow> error + string" where
  "chapter_content e url =
     (case fetch_page e url of
        Inl err \<Rightarrow> Inl err
      | Inr html_content \<Rightarrow> extract_content e html_content)"

text \<open>
  What a chapter contributes to the results when its page can be fetched and
  extracted: its filename and its Markdown. \<open>recorded_entry\<close> is the ledger
  entry written for it (lines 211 to 217).
\<close>

definition chapter_output :: "env \<Rightarrow> string \<times> string \<Rightarrow> (string \<times> string) option" where
  "chapter_output e ch =
     (case chapter_content e (snd ch) of
        Inl err \<Rightarrow> None
      | Inr c \<Rightarrow> Some (sanitize_filename (fst ch) @ ''.md'', c))"

definition recorded_entry :: "env \<Rightarrow> string \<Rightarrow> string \<Rightarrow> string \<Rightarrow> entry" where
  "recorded_entry e title url c =
     [''title'' \<mapsto> title, ''filename'' \<mapsto> sanitize_filename title @ ''.md'',
      ''hash'' \<mapsto> calculate_hash e c, ''last_updated'' \<mapsto> now e url, ''url'' \<mapsto> url]"


section \<open>A sample site\<close>


definition sample_env :: env where
  "sample_env =
     \<lparr>urljoin = (\<lambda>base h. ''https://learn.omacom.io'' @ h),
      fetch_page = (\<lambda>url.
         if url = ''https://learn.omacom.io/2/the-omarchy-manual/93/setup''
         then Inl (ScraperError ''HTTP 500'')
         else Inr (''<main>'' @ url @ ''</main>'')),
      toc_anchors = (\<lambda>content.
         [\<lparr>href = Some ''/2/the-omarchy-manual/91/welcome'', text_of = ''Open Welcome''\<rparr>,
          \<lparr>href = Some ''/2/the-omarchy-manual/92/install'', text_of = ''Install''\<rparr>,
          \<lparr>href = Some ''/2/the-omarchy-manual/91/welcome'', text_of = ''Welcome again''\<rparr>,
          \<lparr>href = Some ''/2/the-omarchy-manual/93/setup'', text_of = ''Open Setup''\<rparr>,
          \<lparr>href = Some ''/about'', text_of = ''About''\<rparr>,
          \<lparr>href = None, text_of = ''Nowhere''\<rparr>]),
      convert = (\<lambda>html. Inr html),
      sha256_hex = (\<lambda>content. ''sha256:'' @ content),
      now = (\<lambda>url. ''2025-01-01T00:00:00'')\<rparr>"


text \<open>The chapters of the sample site, as discovery returns them.\<close>

definition sample_links :: "(string \<times> string) list" where
  "sample_links =
     [(''Welcome'', ''https://learn.omacom.io/2/the-omarchy-manual/91/welcome''),
      (''Install'', ''https://learn.omacom.io/2/the-omarchy-manual/92/install''),
      (''Setup'', ''https://learn.omacom.io/2/the-omarchy-manual/93/setup'')]"

text \<open>Chapters of the sample site of which two share a sanitized filename.\<close>

definition colliding_links :: "(string \<times> string) list" where
  "colliding_links =
     [(''I/O'', ''https://learn.omacom.io/2/the-omarchy-manual/94/io''),
      (''I:O'', ''https://learn.omacom.io/2/the-omarchy-manual/95/io''),
      (''Setup'', ''https://learn.omacom.io/2/the-omarchy-manual/93/setup'')]"

section \<open>Filename sanitization\<close>

























section \<open>Change tracking\<close>

lemma old_hash_cases:
  "old_hash m url =
     (case m url of
        None \<Rightarrow> []
      | Some en \<Rightarrow> (case en ''hash'' of None \<Rightarrow> [] | Some h \<Rightarrow> h))"
  by (simp add: old_hash_def split: option.splits)

text \<open>
  C2. One record-and-compare step (lines 207 to 217) stores the new record
  under the URL whatever was there, leaves every other URL alone, and answers
  \<open>changed\<close> exactly when the new digest differs from the digest stored under the
  URL, a URL without an entry (or an entry without a digest) counting as changed.
  The digest is a SHA-256 hexadecimal digest, hence not the empty text, which
  line 207 uses for "nothing stored".
\<close>

theorem record_and_compare_correct:
  assumes "content_hash \<noteq> []"
  shows "(case record_and_compare m url title filename content_hash ts of (m', chg) \<Rightarrow>
           m' url = Some [''title'' \<mapsto> title, ''filename'' \<mapsto> filename,
                          ''hash'' \<mapsto> content_hash, ''last_updated'' \<mapsto> ts, ''url'' \<mapsto> url]
         \<and> (\<forall>u. u \<noteq> url \<longrightarrow> m' u = m u)
         \<and> (chg \<longleftrightarrow>
              (case m url of
                 None \<Rightarrow> True
               | Some en \<Rightarrow> (case en ''hash'' of None \<Rightarrow> True | Some h \<Rightarrow> h \<noteq> content_hash))))"
  using assms
  by (auto simp: record_and_compare_def old_hash_cases split: option.splits)

theorem record_and_compare_correct_witness:
  "''ab'' \<noteq> [] \<and>
   snd (record_and_compare [''u'' \<mapsto> [''hash'' \<mapsto> ''aa'']] ''u'' ''T'' ''T.md'' ''ab'' ''now'') \<and>
   \<not> snd (record_and_compare [''u'' \<mapsto> [''hash'' \<mapsto> ''ab'']] ''u'' ''T'' ''T.md'' ''ab'' ''now'') \<and>
   snd (record_and_compare Map.empty ''u'' ''T'' ''T.md'' ''ab'' ''now'')"
proof -
  have h: "''ab'' \<noteq> []" by simp
  show ?thesis
    using record_and_compare_correct [OF h, where m = "[''u'' \<mapsto> [''hash'' \<mapsto> ''aa'']]"
        and url = "''u''" and title = "''T''" and filename = "''T.md''" and ts = "''now''"]
      record_and_compare_correct [OF h, where m = "[''u'' \<mapsto> [''hash'' \<mapsto> ''ab'']]"
        and url = "''u''" and title = "''T''" and filename = "''T.md''" and ts = "''now''"]
      record_and_compare_correct [OF h, where m = "Map.empty"
        and url = "''u''" and title = "''T''" and filename = "''T.md''" and ts = "''now''"]
    by (simp split: prod.splits)
qed

text \<open>
  C10. When the fetch of a chapter fails, or its extraction does, the task
  raises the wrapped error and the ledger is exactly the ledger before the
  attempt; and whenever the task raises, the ledger is unchanged. The ledger is
  assigned only after fetching, extraction and hashing.
\<close>

theorem failed_chapter_keeps_ledger:
  "(fetch_page e url = Inl err
      \<or> (\<exists>html. fetch_page e url = Inr html \<and> extract_content e html = Inl err)
      \<longrightarrow> process_chapter e title url m = (Inl (processing_error title err), m))
   \<and> (\<forall>x. fst (process_chapter e title url m) = Inl x
          \<longrightarrow> snd (process_chapter e title url m) = m)"
  by (auto simp: process_chapter_def Let_def split: sum.splits prod.splits)

theorem failed_chapter_keeps_ledger_witness:
  "fetch_page sample_env ''https://learn.omacom.io/2/the-omarchy-manual/93/setup''
     = Inl (ScraperError ''HTTP 500'')
   \<and> process_chapter sample_env ''Setup''
        ''https://learn.omacom.io/2/the-omarchy-manual/93/setup''
        [''https://learn.omacom.io/2/the-omarchy-manual/93/setup'' \<mapsto> [''hash'' \<mapsto> ''old'']]
     = (Inl (processing_error ''Setup'' (ScraperError ''HTTP 500'')),
        [''https://learn.omacom.io/2/the-omarchy-manual/93/setup'' \<mapsto> [''hash'' \<mapsto> ''old'']])"
proof -
  have f: "fetch_page sample_env ''https://learn.omacom.io/2/the-omarchy-manual/93/setup''
             = Inl (ScraperError ''HTTP 500'')"
    by (simp add: sample_env_def)
  show ?thesis
    using f failed_chapter_keeps_ledger
      [of sample_env "''https://learn.omacom.io/2/the-omarchy-manual/93/setup''"
          "ScraperError ''HTTP 500''" "''Setup''"
          "[''https://learn.omacom.io/2/the-omarchy-manual/93/setup'' \<mapsto> [''hash'' \<mapsto> ''old'']]"]
    by simp
qed

section \<open>Titles\<close>

text \<open>
  C5. Line 141 calls \<open>text.replace('Open ', '')\<close> once the text starts with
  \<open>Open \<close>, and \<open>replace\<close> removes every occurrence: the anchor text
  \<open>Open The Open Road\<close> becomes the title \<open>The Road\<close>, not \<open>The Open Road\<close>.
  A text that does not start with the prefix is kept.
\<close>

theorem clean_title_removes_every_occurrence:
  "clean_title ''Open The Open Road'' = ''The Road''
   \<and> clean_title ''Open The Open Road'' \<noteq> ''The Open Road''
   \<and> clean_title ''The Open Road'' = ''The Open Road''"
  by (simp add: clean_title_def)

section \<open>Link discovery: what is returned\<close>













section \<open>The run: results in discovery order\<close>

lemma process_chapter_cases:
  "process_chapter e t u m =
     (case chapter_content e u of
        Inl err \<Rightarrow> (Inl (processing_error t err), m)
      | Inr c \<Rightarrow>
          (Inr (sanitize_filename t @ ''.md'', c, calculate_hash e c \<noteq> old_hash m u),
           m(u \<mapsto> recorded_entry e t u c)))"
  by (simp add: process_chapter_def chapter_content_def record_and_compare_def
        recorded_entry_def Let_def split: sum.splits)

lemma loop_body_cases:
  "loop_body e dry links ch st =
     Inr (case chapter_content e (snd ch) of
            Inl err \<Rightarrow> st\<lparr>console := console st @ [Warning (message (processing_error (fst ch) err))]\<rparr>
          | Inr c \<Rightarrow>
              store_result dry links
                (sanitize_filename (fst ch) @ ''.md'', c,
                 calculate_hash e c \<noteq> old_hash (metadata st) (snd ch))
                (st\<lparr>metadata := (metadata st)(snd ch \<mapsto> recorded_entry e (fst ch) (snd ch) c)\<rparr>))"
  by (simp add: loop_body_def process_chapter_cases processing_error_def split: sum.splits)

lemma loop_total: "\<exists>st'. as_completed_loop e dry links completed st = Inr st'"
  by (induction completed arbitrary: st) (simp_all add: loop_body_cases)

lemma loop_body_fail:
  "chapter_content e (snd ch) = Inl err \<Longrightarrow>
   loop_body e dry links ch st =
     Inr (st\<lparr>console := console st @ [Warning (message (processing_error (fst ch) err))]\<rparr>)"
  by (simp add: loop_body_cases)

lemma loop_body_ok:
  "chapter_content e (snd ch) = Inr c \<Longrightarrow>
   loop_body e dry links ch st =
     Inr (store_result dry links
            (sanitize_filename (fst ch) @ ''.md'', c,
             calculate_hash e c \<noteq> old_hash (metadata st) (snd ch))
            (st\<lparr>metadata := (metadata st)(snd ch \<mapsto> recorded_entry e (fst ch) (snd ch) c)\<rparr>))"
  by (simp add: loop_body_cases)

lemma first_index_distinct:
  "distinct (map f xs) \<Longrightarrow> i < length xs \<Longrightarrow> first_index (\<lambda>x. f x = f (xs ! i)) xs = Some i"
proof (induction xs arbitrary: i)
  case Nil
  then show ?case by simp
next
  case (Cons x xs)
  show ?case
  proof (cases i)
    case 0
    then show ?thesis by simp
  next
    case (Suc j)
    with Cons.prems have "f (xs ! j) \<in> set (map f xs)" by simp
    with Cons.prems have "f x \<noteq> f (xs ! j)" by auto
    with Suc Cons show ?thesis by simp
  qed
qed

lemma filename_index:
  assumes "distinct (map (sanitize_filename \<circ> fst) links)" "i < length links"
  shows "first_index (\<lambda>(title, url). sanitize_filename title @ ''.md''
                        = sanitize_filename (fst (links ! i)) @ ''.md'') links = Some i"
proof -
  have eq: "(\<lambda>(title, url). sanitize_filename title @ ''.md''
            = sanitize_filename (fst (links ! i)) @ ''.md'')
        = (\<lambda>x. (sanitize_filename \<circ> fst) x = (sanitize_filename \<circ> fst) (links ! i))"
    by (auto simp: fun_eq_iff)
  show ?thesis unfolding eq by (rule first_index_distinct [OF assms])
qed

lemma step_results:
  assumes d: "distinct (map (sanitize_filename \<circ> fst) links)"
    and ch: "ch \<in> set links"
    and step: "loop_body e dry links ch st = Inr st1"
  shows "map_of (results_dict st1) i =
           (if i < length links \<and> links ! i = ch \<and> chapter_output e ch \<noteq> None
            then chapter_output e ch else map_of (results_dict st) i)"
proof (cases "chapter_content e (snd ch)")
  case (Inl err)
  with step show ?thesis
    by (auto simp: loop_body_fail chapter_output_def)
next
  case (Inr c)
  from ch obtain k where k: "k < length links" "links ! k = ch"
    by (auto simp: in_set_conv_nth)
  from d have dl: "distinct links" by (rule distinct_map [THEN iffD1, THEN conjunct1])
  have ik: "i < length links \<and> links ! i = ch \<longleftrightarrow> i = k"
    using k dl by (auto simp: nth_eq_iff_index_eq)
  from filename_index [OF d k(1)] k(2)
  have fi: "first_index (\<lambda>(title, url). sanitize_filename title @ ''.md''
                        = sanitize_filename (fst ch) @ ''.md'') links = Some k"
    by simp
  from step Inr fi
  have "results_dict st1 =
          AList.update k (sanitize_filename (fst ch) @ ''.md'', c) (results_dict st)"
    by (auto simp: loop_body_ok store_result_def)
  with Inr ik show ?thesis
    by (auto simp: update_conv' chapter_output_def)
qed

lemma step_keys:
  assumes "loop_body e dry links ch st = Inr st1" "distinct (map fst (results_dict st))"
  shows "distinct (map fst (results_dict st1))"
  using assms
  by (cases "chapter_content e (snd ch)")
     (auto simp: loop_body_fail loop_body_ok store_result_def distinct_update
           split: option.splits)

lemma loop_results:
  assumes d: "distinct (map (sanitize_filename \<circ> fst) links)"
  shows "set completed \<subseteq> set links \<Longrightarrow>
         as_completed_loop e dry links completed st = Inr st' \<Longrightarrow>
         map_of (results_dict st') i =
           (if i < length links \<and> links ! i \<in> set completed
                \<and> chapter_output e (links ! i) \<noteq> None
            then chapter_output e (links ! i) else map_of (results_dict st) i)"
proof (induction completed arbitrary: st)
  case Nil
  then show ?case by simp
next
  case (Cons ch rest)
  from Cons.prems obtain st1 where
    s1: "loop_body e dry links ch st = Inr st1"
    and s2: "as_completed_loop e dry links rest st1 = Inr st'"
    by (auto split: sum.splits)
  from Cons.prems have ch: "ch \<in> set links" and rest: "set rest \<subseteq> set links" by auto
  note ih = Cons.IH [OF rest s2]
  note st = step_results [OF d ch s1, of i]
  show ?case unfolding ih st by auto
qed

lemma loop_keys:
  "as_completed_loop e dry links completed st = Inr st' \<Longrightarrow>
   distinct (map fst (results_dict st)) \<Longrightarrow> distinct (map fst (results_dict st'))"
proof (induction completed arbitrary: st)
  case Nil
  then show ?case by simp
next
  case (Cons ch rest)
  then show ?case
    by (auto split: sum.splits dest: step_keys)
qed

lemma sorted_results_eq:
  assumes d: "distinct (map fst d)"
    and m: "\<And>i. map_of d i = (if i < n \<and> P i then Some (g i) else None)"
  shows "sorted_results d = map g (filter P [0..<n])"
proof -
  have "set (map fst d) = dom (map_of d)" by (simp add: dom_map_of_conv_image_fst)
  also have "\<dots> = set (filter P [0..<n])" using m by (auto simp: dom_def)
  finally have s: "set (sort (map fst d)) = set (filter P [0..<n])" by simp
  have "sort (map fst d) = filter P [0..<n]"
    by (rule sorted_distinct_set_unique) (use d s in \<open>simp_all add: sorted_wrt_filter\<close>)
  then show ?thesis
    using m by (simp add: sorted_results_def)
qed

lemma map_filter_index:
  "List.map_filter h xs =
     map (\<lambda>i. the (h (xs ! i))) (filter (\<lambda>i. h (xs ! i) \<noteq> None) [0..<length xs])"
proof (induction xs rule: rev_induct)
  case Nil
  then show ?case by (simp add: List.map_filter_simps)
next
  case (snoc x xs)
  have 1: "filter (\<lambda>i. h ((xs @ [x]) ! i) \<noteq> None) [0..<length xs]
             = filter (\<lambda>i. h (xs ! i) \<noteq> None) [0..<length xs]"
    by (rule filter_cong) (auto simp: nth_append)
  have 2: "map (\<lambda>i. the (h ((xs @ [x]) ! i))) (filter (\<lambda>i. h (xs ! i) \<noteq> None) [0..<length xs])
             = map (\<lambda>i. the (h (xs ! i))) (filter (\<lambda>i. h (xs ! i) \<noteq> None) [0..<length xs])"
    by (rule map_cong) (auto simp: nth_append)
  have "List.map_filter h (xs @ [x]) = List.map_filter h xs @ List.map_filter h [x]"
    by (simp add: List.map_filter_def)
  with snoc 1 2 show ?case
    by (auto simp: List.map_filter_simps split: option.splits)
qed

lemma run_chapters_results:
  assumes d: "distinct (map (sanitize_filename \<circ> fst) links)"
    and p: "mset completed = mset links"
  shows "\<exists>r. run_chapters e dry disk links completed = Inr r
           \<and> ordered_results r = List.map_filter (chapter_output e) links"
proof -
  define st0 where "st0 = \<lparr>metadata = load_metadata disk, results_dict = [],
     changed_chapters = [], chapter_files = Map.empty, console = []\<rparr>"
  obtain st' where l: "as_completed_loop e dry links completed st0 = Inr st'"
    using loop_total by blast
  from p have s: "set completed = set links" by (rule mset_eq_setD)
  have k: "distinct (map fst (results_dict st'))"
    using loop_keys [OF l] by (simp add: st0_def)
  have m: "map_of (results_dict st') i =
      (if i < length links \<and> chapter_output e (links ! i) \<noteq> None
       then Some (the (chapter_output e (links ! i))) else None)" for i
    using loop_results [OF d _ l, of i] s by (auto simp: st0_def)
  have "sorted_results (results_dict st') = List.map_filter (chapter_output e) links"
    unfolding map_filter_index by (rule sorted_results_eq [OF k m])
  with l show ?thesis
    by (simp add: run_chapters_def st0_def)
qed


text \<open>
  C1. When the sanitized filenames of the discovered chapters are pairwise
  distinct, the run ends normally and its ordered results are the outputs of
  the chapters that could be fetched and extracted, in discovery order,
  whatever the order \<open>completed\<close> in which the tasks finished (any
  rearrangement of the discovered chapters).
\<close>

theorem results_in_discovery_order:
  assumes "distinct (map (sanitize_filename \<circ> fst) chapter_links)"
    and "mset completed = mset chapter_links"
  shows "\<exists>r. run_chapters e dry_run on_disk chapter_links completed = Inr r
           \<and> ordered_results r = List.map_filter (chapter_output e) chapter_links"
  using assms by (rule run_chapters_results)

lemma sample_outputs:
  "List.map_filter (chapter_output sample_env) sample_links =
     [(''Welcome.md'', ''<main>https://learn.omacom.io/2/the-omarchy-manual/91/welcome</main>''),
      (''Install.md'', ''<main>https://learn.omacom.io/2/the-omarchy-manual/92/install</main>'')]"
  by (simp add: List.map_filter_simps chapter_output_def chapter_content_def sample_env_def
        sample_links_def extract_content_def strip_chars_def is_space_def
        sanitize_filename_def hostile_chars_def)

lemma sample_distinct: "distinct (map (sanitize_filename \<circ> fst) sample_links)"
  by (simp add: sample_links_def sanitize_filename_def hostile_chars_def is_space_def
        strip_chars_def)

theorem results_in_discovery_order_witness:
  "distinct (map (sanitize_filename \<circ> fst) sample_links)
   \<and> mset (rev sample_links) = mset sample_links
   \<and> (\<exists>r. run_chapters sample_env False None sample_links (rev sample_links) = Inr r
          \<and> ordered_results r =
             [(''Welcome.md'',
               ''<main>https://learn.omacom.io/2/the-omarchy-manual/91/welcome</main>''),
              (''Install.md'',
               ''<main>https://learn.omacom.io/2/the-omarchy-manual/92/install</main>'')])"
proof -
  have m: "mset (rev sample_links) = mset sample_links" by simp
  from results_in_discovery_order [OF sample_distinct m, of sample_env False None]
  show ?thesis using sample_distinct m by (simp add: sample_outputs)
qed

section \<open>The run: failures stay with their chapter\<close>

lemma step_console:
  assumes "loop_body e dry links ch st = Inr st1"
  shows "set (console st) \<subseteq> set (console st1)"
    and "chapter_content e (snd ch) = Inl err \<Longrightarrow>
         Warning (message (processing_error (fst ch) err)) \<in> set (console st1)"
  using assms
  by (cases "chapter_content e (snd ch)"; auto simp: loop_body_fail loop_body_ok store_result_def
        split: option.splits)+

lemma loop_console:
  "as_completed_loop e dry links completed st = Inr st' \<Longrightarrow>
   set (console st) \<subseteq> set (console st') \<and>
   (\<forall>ch\<in>set completed. \<forall>err. chapter_content e (snd ch) = Inl err \<longrightarrow>
      Warning (message (processing_error (fst ch) err)) \<in> set (console st'))"
proof (induction completed arbitrary: st)
  case Nil
  then show ?case by simp
next
  case (Cons ch rest)
  from Cons.prems obtain st1 where
    s1: "loop_body e dry links ch st = Inr st1"
    and s2: "as_completed_loop e dry links rest st1 = Inr st'"
    by (auto split: sum.splits)
  from Cons.IH [OF s2] step_console [OF s1] show ?case by auto
qed

lemma step_files:
  assumes "loop_body e dry links ch st = Inr st1"
  shows "chapter_files st1 =
           (case chapter_content e (snd ch) of
              Inl err \<Rightarrow> chapter_files st
            | Inr c \<Rightarrow> if dry then chapter_files st
                       else (chapter_files st)(sanitize_filename (fst ch) @ ''.md'' \<mapsto> c))"
  using assms
  by (cases "chapter_content e (snd ch)")
     (auto simp: loop_body_fail loop_body_ok store_result_def split: option.splits)

lemma loop_files_other:
  "as_completed_loop e dry links completed st = Inr st' \<Longrightarrow>
   \<forall>ch\<in>set completed. sanitize_filename (fst ch) @ ''.md'' \<noteq> f \<Longrightarrow>
   chapter_files st' f = chapter_files st f"
proof (induction completed arbitrary: st)
  case Nil
  then show ?case by simp
next
  case (Cons ch rest)
  from Cons.prems obtain st1 where
    s1: "loop_body e dry links ch st = Inr st1"
    and s2: "as_completed_loop e dry links rest st1 = Inr st'"
    by (auto split: sum.splits)
  from Cons.prems have "chapter_files st' f = chapter_files st1 f"
    by (intro Cons.IH [OF s2]) simp
  also from Cons.prems have "\<dots> = chapter_files st f"
    by (auto simp: step_files [OF s1] split: sum.splits)
  finally show ?case .
qed

lemma loop_files:
  assumes d: "distinct (map (sanitize_filename \<circ> fst) links)"
  shows "as_completed_loop e False links completed st = Inr st' \<Longrightarrow>
         set completed \<subseteq> set links \<Longrightarrow> ch \<in> set completed \<Longrightarrow>
         chapter_content e (snd ch) = Inr c \<Longrightarrow>
         chapter_files st' (sanitize_filename (fst ch) @ ''.md'') = Some c"
proof (induction completed arbitrary: st)
  case Nil
  then show ?case by simp
next
  case (Cons x rest)
  from Cons.prems obtain st1 where
    s1: "loop_body e False links x st = Inr st1"
    and s2: "as_completed_loop e False links rest st1 = Inr st'"
    by (auto split: sum.splits)
  show ?case
  proof (cases "ch \<in> set rest")
    case True
    with Cons.prems show ?thesis by (intro Cons.IH [OF s2]) auto
  next
    case False
    with Cons.prems have x: "x = ch" by simp
    have inj: "inj_on (sanitize_filename \<circ> fst) (set links)"
      using d by (simp add: distinct_map)
    have "\<forall>y\<in>set rest. sanitize_filename (fst y) @ ''.md'' \<noteq> sanitize_filename (fst ch) @ ''.md''"
    proof
      fix y assume y: "y \<in> set rest"
      with False have "y \<noteq> ch" by auto
      moreover from y Cons.prems have "y \<in> set links" "ch \<in> set links" by auto
      ultimately have "(sanitize_filename \<circ> fst) y \<noteq> (sanitize_filename \<circ> fst) ch"
        using inj_onD [OF inj, of y ch] by blast
      then show "sanitize_filename (fst y) @ ''.md'' \<noteq> sanitize_filename (fst ch) @ ''.md''"
        by simp
    qed
    from loop_files_other [OF s2 this]
    have "chapter_files st' (sanitize_filename (fst ch) @ ''.md'')
            = chapter_files st1 (sanitize_filename (fst ch) @ ''.md'')" .
    also have "\<dots> = Some c"
      using Cons.prems x by (simp add: step_files [OF s1])
    finally show ?thesis .
  qed
qed

lemma run_chapters_unfold:
  "as_completed_loop e dry links completed
     \<lparr>metadata = load_metadata disk, results_dict = [], changed_chapters = [],
      chapter_files = Map.empty, console = []\<rparr> = Inr st' \<Longrightarrow>
   run_chapters e dry disk links completed =
     Inr \<lparr>ordered_results = sorted_results (results_dict st'),
          changed_files = changed_chapters st',
          written_files = chapter_files st',
          saved_metadata = save_metadata dry (metadata st') disk,
          printed = console st'\<rparr>"
  by (simp add: run_chapters_def)

lemma map_filter_SomeI:
  "x \<in> set xs \<Longrightarrow> f x = Some y \<Longrightarrow> y \<in> set (List.map_filter f xs)"
  by (force simp: List.map_filter_def)

text \<open>
  C8, as the code has it. Whatever chapters fail, the run ends normally. For
  every discovered chapter: when its fetch or its extraction fails, the warning
  with the wrapped error is printed (the code keeps no list of failures, the
  printed warning is the record); when it succeeds, its filename and Markdown
  are among the ordered results and, outside a dry run, the chapter file holds
  its Markdown. The second half needs the sanitized filenames to be pairwise
  distinct: the chapter file and the index in \<open>results_dict\<close> are both found
  through the filename.
\<close>

theorem failures_are_isolated:
  assumes d: "distinct (map (sanitize_filename \<circ> fst) chapter_links)"
    and p: "mset completed = mset chapter_links"
  shows "\<exists>r. run_chapters e dry_run on_disk chapter_links completed = Inr r
     \<and> (\<forall>(t, u)\<in>set chapter_links.
          case chapter_content e u of
            Inl err \<Rightarrow> Warning (message (processing_error t err)) \<in> set (printed r)
          | Inr c \<Rightarrow>
              (sanitize_filename t @ ''.md'', c) \<in> set (ordered_results r)
              \<and> (\<not> dry_run \<longrightarrow> written_files r (sanitize_filename t @ ''.md'') = Some c))"
proof -
  define st0 where "st0 = \<lparr>metadata = load_metadata on_disk, results_dict = [],
     changed_chapters = [], chapter_files = Map.empty, console = []\<rparr>"
  obtain st' where l: "as_completed_loop e dry_run chapter_links completed st0 = Inr st'"
    using loop_total by blast
  from p have s: "set completed = set chapter_links" by (rule mset_eq_setD)
  obtain r where r: "run_chapters e dry_run on_disk chapter_links completed = Inr r"
    and o: "ordered_results r = List.map_filter (chapter_output e) chapter_links"
    using run_chapters_results [OF d p] by blast
  from l r have pr: "printed r = console st'" and wf: "written_files r = chapter_files st'"
    by (auto simp: run_chapters_unfold st0_def)
  have "case chapter_content e u of
            Inl err \<Rightarrow> Warning (message (processing_error t err)) \<in> set (printed r)
          | Inr c \<Rightarrow>
              (sanitize_filename t @ ''.md'', c) \<in> set (ordered_results r)
              \<and> (\<not> dry_run \<longrightarrow> written_files r (sanitize_filename t @ ''.md'') = Some c)"
    if m: "(t, u) \<in> set chapter_links" for t u
  proof (cases "chapter_content e u")
    case (Inl err)
    with loop_console [OF l] m s show ?thesis by (force simp: pr)
  next
    case (Inr c)
    then have "chapter_output e (t, u) = Some (sanitize_filename t @ ''.md'', c)"
      by (simp add: chapter_output_def)
    with m have 1: "(sanitize_filename t @ ''.md'', c) \<in> set (ordered_results r)"
      unfolding o by (rule map_filter_SomeI)
    have 2: "written_files r (sanitize_filename t @ ''.md'') = Some c" if "\<not> dry_run"
      using loop_files [OF d, of e completed st0 st' "(t, u)" c] l that m s Inr
      by (simp add: wf)
    from 1 2 Inr show ?thesis by simp
  qed
  with r show ?thesis by blast
qed

lemma sample_contents:
  "chapter_content sample_env ''https://learn.omacom.io/2/the-omarchy-manual/91/welcome''
     = Inr ''<main>https://learn.omacom.io/2/the-omarchy-manual/91/welcome</main>''"
  "chapter_content sample_env ''https://learn.omacom.io/2/the-omarchy-manual/92/install''
     = Inr ''<main>https://learn.omacom.io/2/the-omarchy-manual/92/install</main>''"
  "chapter_content sample_env ''https://learn.omacom.io/2/the-omarchy-manual/93/setup''
     = Inl (ScraperError ''HTTP 500'')"
  "chapter_content sample_env ''https://learn.omacom.io/2/the-omarchy-manual/94/io''
     = Inr ''<main>https://learn.omacom.io/2/the-omarchy-manual/94/io</main>''"
  "chapter_content sample_env ''https://learn.omacom.io/2/the-omarchy-manual/95/io''
     = Inr ''<main>https://learn.omacom.io/2/the-omarchy-manual/95/io</main>''"
  by (simp_all add: chapter_content_def sample_env_def extract_content_def strip_chars_def
        is_space_def)

lemma sample_filenames:
  "sanitize_filename ''Welcome'' = ''Welcome''"
  "sanitize_filename ''Install'' = ''Install''"
  "sanitize_filename ''Setup'' = ''Setup''"
  "sanitize_filename ''I/O'' = ''I_O''"
  "sanitize_filename ''I:O'' = ''I_O''"
  by (simp_all add: sanitize_filename_def hostile_chars_def is_space_def strip_chars_def)

theorem failures_are_isolated_witness:
  "distinct (map (sanitize_filename \<circ> fst) sample_links)
   \<and> mset (rev sample_links) = mset sample_links
   \<and> (\<exists>r. run_chapters sample_env False None sample_links (rev sample_links) = Inr r
        \<and> Warning (message (processing_error ''Setup'' (ScraperError ''HTTP 500'')))
            \<in> set (printed r)
        \<and> (''Install.md'',
            ''<main>https://learn.omacom.io/2/the-omarchy-manual/92/install</main>'')
            \<in> set (ordered_results r)
        \<and> written_files r ''Welcome.md''
            = Some ''<main>https://learn.omacom.io/2/the-omarchy-manual/91/welcome</main>'')"
proof -
  have m: "mset (rev sample_links) = mset sample_links" by simp
  from failures_are_isolated [OF sample_distinct m, of sample_env False None]
  show ?thesis
    using sample_distinct m
    by (auto simp: sample_links_def sample_contents sample_filenames)
qed

text \<open>
  Without that condition the claim fails. The titles \<open>I/O\<close> and \<open>I:O\<close> both
  give \<open>I_O.md\<close>; both chapters are fetched and extracted, a third chapter
  fails, and the output of the first chapter is neither among the results nor
  in the chapter file, which the second chapter has overwritten.
\<close>

theorem collision_loses_output_counterexample:
  "chapter_content sample_env ''https://learn.omacom.io/2/the-omarchy-manual/94/io''
     = Inr ''<main>https://learn.omacom.io/2/the-omarchy-manual/94/io</main>''
   \<and> chapter_content sample_env ''https://learn.omacom.io/2/the-omarchy-manual/93/setup''
     = Inl (ScraperError ''HTTP 500'')
   \<and> (case run_chapters sample_env False None colliding_links colliding_links of
         Inl err \<Rightarrow> False
       | Inr r \<Rightarrow>
           ordered_results r =
             [(''I_O.md'', ''<main>https://learn.omacom.io/2/the-omarchy-manual/95/io</main>'')]
           \<and> written_files r ''I_O.md''
               = Some ''<main>https://learn.omacom.io/2/the-omarchy-manual/95/io</main>''
           \<and> (''I_O.md'', ''<main>https://learn.omacom.io/2/the-omarchy-manual/94/io</main>'')
               \<notin> set (ordered_results r)
           \<and> written_files r ''I_O.md''
               \<noteq> Some ''<main>https://learn.omacom.io/2/the-omarchy-manual/94/io</main>'')"
  by (simp add: run_chapters_def colliding_links_def loop_body_cases sample_contents
        sample_filenames store_result_def sorted_results_def load_metadata_def)

section \<open>Two runs over unchanged content\<close>

lemma old_hash_recorded:
  "old_hash (m(u \<mapsto> recorded_entry e t u c)) u' =
     (if u' = u then calculate_hash e c else old_hash m u')"
  by (simp add: old_hash_def recorded_entry_def)

lemma step_metadata:
  assumes "loop_body e dry links ch st = Inr st1"
  shows "metadata st1 =
           (case chapter_content e (snd ch) of
              Inl err \<Rightarrow> metadata st
            | Inr c \<Rightarrow> (metadata st)(snd ch \<mapsto> recorded_entry e (fst ch) (snd ch) c))"
  using assms
  by (cases "chapter_content e (snd ch)")
     (auto simp: loop_body_fail loop_body_ok store_result_def split: option.splits)

lemma step_changed:
  assumes "loop_body e dry links ch st = Inr st1"
  shows "changed_chapters st1 =
           (case chapter_content e (snd ch) of
              Inl err \<Rightarrow> changed_chapters st
            | Inr c \<Rightarrow>
                if calculate_hash e c \<noteq> old_hash (metadata st) (snd ch)
                then changed_chapters st @ [sanitize_filename (fst ch) @ ''.md'']
                else changed_chapters st)"
  using assms
  by (cases "chapter_content e (snd ch)")
     (auto simp: loop_body_fail loop_body_ok store_result_def split: option.splits)

lemma step_keeps_digest:
  assumes s: "loop_body e dry links ch st = Inr st1"
    and k: "chapter_content e u = Inr c \<longrightarrow> old_hash (metadata st) u = calculate_hash e c"
  shows "chapter_content e u = Inr c \<longrightarrow> old_hash (metadata st1) u = calculate_hash e c"
  using k
  by (cases "chapter_content e (snd ch)")
     (auto simp: step_metadata [OF s] old_hash_recorded)

lemma step_sets_digest:
  assumes s: "loop_body e dry links ch st = Inr st1"
  shows "chapter_content e (snd ch) = Inr c \<longrightarrow>
         old_hash (metadata st1) (snd ch) = calculate_hash e c"
  by (cases "chapter_content e (snd ch)")
     (auto simp: step_metadata [OF s] old_hash_recorded)

lemma loop_keeps_digest:
  "as_completed_loop e dry links completed st = Inr st' \<Longrightarrow>
   chapter_content e u = Inr c \<longrightarrow> old_hash (metadata st) u = calculate_hash e c \<Longrightarrow>
   chapter_content e u = Inr c \<longrightarrow> old_hash (metadata st') u = calculate_hash e c"
proof (induction completed arbitrary: st)
  case Nil
  then show ?case by simp
next
  case (Cons ch rest)
  from Cons.prems obtain st1 where
    s1: "loop_body e dry links ch st = Inr st1"
    and s2: "as_completed_loop e dry links rest st1 = Inr st'"
    by (auto split: sum.splits)
  from Cons.IH [OF s2 step_keeps_digest [OF s1 Cons.prems(2)]] show ?case .
qed

lemma loop_sets_digest:
  "as_completed_loop e dry links completed st = Inr st' \<Longrightarrow>
   ch \<in> set completed \<Longrightarrow>
   chapter_content e (snd ch) = Inr c \<longrightarrow> old_hash (metadata st') (snd ch) = calculate_hash e c"
proof (induction completed arbitrary: st)
  case Nil
  then show ?case by simp
next
  case (Cons x rest)
  from Cons.prems obtain st1 where
    s1: "loop_body e dry links x st = Inr st1"
    and s2: "as_completed_loop e dry links rest st1 = Inr st'"
    by (auto split: sum.splits)
  show ?case
  proof (cases "ch \<in> set rest")
    case True
    then show ?thesis by (rule Cons.IH [OF s2])
  next
    case False
    with Cons.prems have "x = ch" by simp
    with step_sets_digest [OF s1, of c]
    have "chapter_content e (snd ch) = Inr c \<longrightarrow>
          old_hash (metadata st1) (snd ch) = calculate_hash e c" by simp
    then show ?thesis by (rule loop_keeps_digest [OF s2])
  qed
qed

lemma loop_nothing_changed:
  "as_completed_loop e dry links completed st = Inr st' \<Longrightarrow>
   \<forall>ch\<in>set completed. \<forall>c. chapter_content e (snd ch) = Inr c \<longrightarrow>
      old_hash (metadata st) (snd ch) = calculate_hash e c \<Longrightarrow>
   changed_chapters st' = changed_chapters st"
proof (induction completed arbitrary: st)
  case Nil
  then show ?case by simp
next
  case (Cons x rest)
  from Cons.prems obtain st1 where
    s1: "loop_body e dry links x st = Inr st1"
    and s2: "as_completed_loop e dry links rest st1 = Inr st'"
    by (auto split: sum.splits)
  have "\<forall>ch\<in>set rest. \<forall>c. chapter_content e (snd ch) = Inr c \<longrightarrow>
      old_hash (metadata st1) (snd ch) = calculate_hash e c"
    using Cons.prems(2) step_keeps_digest [OF s1] by simp
  from Cons.IH [OF s2 this] have "changed_chapters st' = changed_chapters st1" .
  also have "\<dots> = changed_chapters st"
    using Cons.prems(2) by (auto simp: step_changed [OF s1] split: sum.splits)
  finally show ?case .
qed

lemma later_extract: "extract_content (e\<lparr>now := n\<rparr>) html = extract_content e html"
  by (simp add: extract_content_def)

lemma later_content: "chapter_content (e\<lparr>now := n\<rparr>) = chapter_content e"
  by (simp add: fun_eq_iff chapter_content_def later_extract split: sum.splits)

lemma later_hash: "calculate_hash (e\<lparr>now := n\<rparr>) = calculate_hash e"
  by (simp add: fun_eq_iff calculate_hash_def)

text \<open>
  C3. A first run that saves its ledger, then a second run over the same
  chapters and the same page content (only the clock differs), started from the
  saved ledger, the tasks of either run completing in any order: both runs end
  normally and the second reports no changed chapter. For every chapter that
  can be fetched and extracted, the saved ledger holds the digest of its
  Markdown, and the second run's task returns \<open>changed = False\<close>.
\<close>

theorem second_run_reports_no_change:
  assumes p1: "mset completed1 = mset chapter_links"
    and p2: "mset completed2 = mset chapter_links"
  shows "\<exists>r1 r2.
      run_chapters e False on_disk chapter_links completed1 = Inr r1
    \<and> run_chapters (e\<lparr>now := later\<rparr>) dry_run2 (saved_metadata r1) chapter_links completed2 = Inr r2
    \<and> changed_files r2 = []
    \<and> (\<forall>(t, u)\<in>set chapter_links. \<forall>c. chapter_content e u = Inr c \<longrightarrow>
          old_hash (load_metadata (saved_metadata r1)) u = calculate_hash e c
          \<and> fst (process_chapter (e\<lparr>now := later\<rparr>) t u (load_metadata (saved_metadata r1)))
              = Inr (sanitize_filename t @ ''.md'', c, False))"
proof -
  define st0 where "st0 = \<lparr>metadata = load_metadata on_disk, results_dict = [],
     changed_chapters = [], chapter_files = Map.empty, console = []\<rparr>"
  obtain st1 where l1: "as_completed_loop e False chapter_links completed1 st0 = Inr st1"
    using loop_total by blast
  define r1 where "r1 = \<lparr>ordered_results = sorted_results (results_dict st1),
          changed_files = changed_chapters st1,
          written_files = chapter_files st1,
          saved_metadata = save_metadata False (metadata st1) on_disk,
          printed = console st1\<rparr>"
  have run1: "run_chapters e False on_disk chapter_links completed1 = Inr r1"
    using l1 by (simp add: run_chapters_unfold st0_def r1_def)
  have lm: "load_metadata (saved_metadata r1) = metadata st1"
    by (simp add: r1_def save_metadata_def load_metadata_def)
  from p1 p2 have s: "set completed1 = set chapter_links" "set completed2 = set chapter_links"
    by (auto dest: mset_eq_setD)
  have dig: "chapter_content e (snd ch) = Inr c \<longrightarrow>
        old_hash (metadata st1) (snd ch) = calculate_hash e c"
    if "ch \<in> set chapter_links" for ch c
    using loop_sets_digest [OF l1, of ch c] that s by simp
  define st0' where "st0' = \<lparr>metadata = load_metadata (saved_metadata r1), results_dict = [],
     changed_chapters = [], chapter_files = Map.empty, console = []\<rparr>"
  obtain st2 where
    l2: "as_completed_loop (e\<lparr>now := later\<rparr>) dry_run2 chapter_links completed2 st0' = Inr st2"
    using loop_total by blast
  define r2 where "r2 = \<lparr>ordered_results = sorted_results (results_dict st2),
          changed_files = changed_chapters st2,
          written_files = chapter_files st2,
          saved_metadata = save_metadata dry_run2 (metadata st2) (saved_metadata r1),
          printed = console st2\<rparr>"
  have run2: "run_chapters (e\<lparr>now := later\<rparr>) dry_run2 (saved_metadata r1) chapter_links completed2
                = Inr r2"
    using l2 by (simp add: run_chapters_unfold st0'_def r2_def)
  have "changed_chapters st2 = changed_chapters st0'"
    by (rule loop_nothing_changed [OF l2])
       (use dig s in \<open>auto simp: later_content later_hash st0'_def lm\<close>)
  then have nc: "changed_files r2 = []" by (simp add: r2_def st0'_def)
  have each: "old_hash (load_metadata (saved_metadata r1)) u = calculate_hash e c
          \<and> fst (process_chapter (e\<lparr>now := later\<rparr>) t u (load_metadata (saved_metadata r1)))
              = Inr (sanitize_filename t @ ''.md'', c, False)"
    if "(t, u) \<in> set chapter_links" "chapter_content e u = Inr c" for t u c
    using dig [OF that(1), of c] that(2)
    by (simp add: lm process_chapter_cases later_content later_hash)
  from run1 run2 nc each show ?thesis by blast
qed

lemma sample_hash: "calculate_hash sample_env c = ''sha256:'' @ c"
  by (simp add: calculate_hash_def sample_env_def)

lemma first_run_changes:
  "run_chapters sample_env False None sample_links sample_links = Inr r \<Longrightarrow>
   changed_files r = [''Welcome.md'', ''Install.md'']"
  by (auto simp: run_chapters_def sample_links_def loop_body_cases sample_contents
        sample_filenames store_result_def load_metadata_def old_hash_def sample_hash)

theorem second_run_reports_no_change_witness:
  "mset sample_links = mset sample_links
   \<and> mset (rev sample_links) = mset sample_links
   \<and> (\<exists>r1 r2.
        run_chapters sample_env False None sample_links sample_links = Inr r1
      \<and> run_chapters (sample_env\<lparr>now := (\<lambda>url. ''2025-02-01T00:00:00'')\<rparr>) False
           (saved_metadata r1) sample_links (rev sample_links) = Inr r2
      \<and> changed_files r1 = [''Welcome.md'', ''Install.md'']
      \<and> changed_files r2 = [])"
proof -
  have m1: "mset sample_links = mset sample_links" by simp
  have m2: "mset (rev sample_links) = mset sample_links" by simp
  from second_run_reports_no_change [OF m1 m2, of sample_env None
      "\<lambda>url. ''2025-02-01T00:00:00''" False]
  show ?thesis using first_run_changes by auto
qed

end
